theory Spec2Isabelle
  imports Main "HOL-Library.Sublist"
begin

section \<open>Favorites store (packages/storage/lib/code-favorites/favorites.ts)\<close>

text \<open>
  The persisted collection and its records. Identifiers and use counts are JavaScript
  numbers that only ever hold small non-negative integers here, so they are natural
  numbers; \<open>createdAt\<close> is the millisecond timestamp \<open>Date.now()\<close>, passed in
  explicitly. The field \<open>id\<close> of the source is \<open>id_fav\<close>, since \<open>id\<close> is the
  identity function of HOL.
\<close>

record CodeFavorite =
  id_fav :: nat
  name :: string
  code :: string
  urlPattern :: string
  useCount :: nat
  createdAt :: int

record CodeFavoritesStorage =
  nextId :: nat
  favorites :: "CodeFavorite list"

definition initialState :: CodeFavoritesStorage where
  "initialState = \<lparr>nextId = 1, favorites = []\<rparr>"

text \<open>
  Each operation is the function handed to \<open>codeFavoritesStorage.set\<close>, applied to the
  previous value of the collection, paired with what the operation returns.
  \<open>addFavorite\<close> returns \<open>favorites[0]\<close> of the collection read back, which is
  \<open>undefined\<close> (here \<open>None\<close>) on an empty array.
\<close>

definition addFavorite ::
  "int \<Rightarrow> string \<Rightarrow> string \<Rightarrow> string \<Rightarrow> CodeFavoritesStorage
    \<Rightarrow> CodeFavoritesStorage \<times> CodeFavorite option" where
  "addFavorite now n c u prev =
     (let i = nextId prev;
          newFavorite = \<lparr>id_fav = i, name = n, code = c, urlPattern = u,
                         useCount = 0, createdAt = now\<rparr>;
          st = \<lparr>nextId = i + 1, favorites = newFavorite # favorites prev\<rparr>
      in (st, case favorites st of [] \<Rightarrow> None | f # _ \<Rightarrow> Some f))"

text \<open>
  \<open>updateFavorite\<close>: the callback of \<open>map\<close> assigns the variable \<open>updatedFavorite\<close> at
  every record whose id matches, so after the traversal it holds the last such record
  (as rewritten), or is still \<open>undefined\<close>.
\<close>

definition updateFavorite ::
  "nat \<Rightarrow> string \<Rightarrow> string \<Rightarrow> string \<Rightarrow> CodeFavoritesStorage
    \<Rightarrow> CodeFavoritesStorage \<times> CodeFavorite option" where
  "updateFavorite i n c u prev =
     (let updatedFavorites =
            map (\<lambda>favorite. if id_fav favorite = i
                   then favorite\<lparr>name := n, code := c, urlPattern := u\<rparr>
                   else favorite) (favorites prev);
          updatedFavorite =
            (case filter (\<lambda>favorite. id_fav favorite = i) (favorites prev) of
               [] \<Rightarrow> None
             | f # fs \<Rightarrow> Some ((last (f # fs))\<lparr>name := n, code := c, urlPattern := u\<rparr>))
      in case updatedFavorite of
           None \<Rightarrow> (prev, None)
         | Some r \<Rightarrow> (prev\<lparr>favorites := updatedFavorites\<rparr>, Some r))"

definition removeFavorite :: "nat \<Rightarrow> CodeFavoritesStorage \<Rightarrow> CodeFavoritesStorage" where
  "removeFavorite i prev =
     prev\<lparr>favorites := filter (\<lambda>favorite. id_fav favorite \<noteq> i) (favorites prev)\<rparr>"

definition incrementUseCount :: "nat \<Rightarrow> CodeFavoritesStorage \<Rightarrow> CodeFavoritesStorage" where
  "incrementUseCount i prev =
     prev\<lparr>favorites :=
       map (\<lambda>favorite. if id_fav favorite = i
              then favorite\<lparr>useCount := useCount favorite + 1\<rparr>
              else favorite) (favorites prev)\<rparr>"

definition getFavoriteById :: "nat \<Rightarrow> CodeFavoritesStorage \<Rightarrow> CodeFavorite option" where
  "getFavoriteById i st = find (\<lambda>favorite. id_fav favorite = i) (favorites st)"

text \<open>Sequences of mutating calls, each applied to the collection the previous one left.\<close>

datatype store_op =
    AddFavorite int string string string
  | UpdateFavorite nat string string string
  | RemoveFavorite nat
  | IncrementUseCount nat

fun apply_op :: "store_op \<Rightarrow> CodeFavoritesStorage \<Rightarrow> CodeFavoritesStorage \<times> CodeFavorite option" where
  "apply_op (AddFavorite now n c u) st = addFavorite now n c u st"
| "apply_op (UpdateFavorite i n c u) st = updateFavorite i n c u st"
| "apply_op (RemoveFavorite i) st = (removeFavorite i st, None)"
| "apply_op (IncrementUseCount i) st = (incrementUseCount i st, None)"

fun run_ops :: "store_op list \<Rightarrow> CodeFavoritesStorage \<Rightarrow> CodeFavoritesStorage" where
  "run_ops [] st = st"
| "run_ops (x # xs) st = run_ops xs (fst (apply_op x st))"

text \<open>The identifiers of the records returned by the \<open>addFavorite\<close> calls of a run, in order.\<close>

fun allocated_ids :: "store_op list \<Rightarrow> CodeFavoritesStorage \<Rightarrow> nat list" where
  "allocated_ids [] st = []"
| "allocated_ids (AddFavorite now n c u # xs) st =
     (case addFavorite now n c u st of
        (st', None) \<Rightarrow> allocated_ids xs st'
      | (st', Some f) \<Rightarrow> id_fav f # allocated_ids xs st')"
| "allocated_ids (x # xs) st = allocated_ids xs (fst (apply_op x st))"

definition ids_below_next :: "CodeFavoritesStorage \<Rightarrow> bool" where
  "ids_below_next st = list_all (\<lambda>f. id_fav f < nextId st) (favorites st)"

definition store_inv :: "CodeFavoritesStorage \<Rightarrow> bool" where
  "store_inv st = (ids_below_next st \<and> distinct (map id_fav (favorites st)))"

section \<open>JavaScript string primitives\<close>

text \<open>
  \<open>s.indexOf(p)\<close>, with \<open>None\<close> for the result \<open>-1\<close>, and \<open>s.includes(p)\<close> (here \<open>includes_str\<close>).
  Strings are lists of characters; the functions below never look inside a character.
\<close>

fun indexOf :: "string \<Rightarrow> string \<Rightarrow> nat option" where
  "indexOf [] p = (if p = [] then Some 0 else None)"
| "indexOf (x # xs) p =
     (if prefix p (x # xs) then Some 0 else map_option Suc (indexOf xs p))"

definition includes_str :: "string \<Rightarrow> string \<Rightarrow> bool" where
  "includes_str s p = (indexOf s p \<noteq> None)"

section \<open>Executed-code provenance (MessageList.tsx, execute-code action)\<close>

definition startMarker :: string where
  "startMarker = ''<nano_executed_code>''"

definition endMarker :: string where
  "endMarker = ''</nano_executed_code>''"

text \<open>
  The template literal of the three outcome branches of the code-execution action:
  the outcome text, then the code between the two markers.
\<close>

definition encode :: "string \<Rightarrow> string \<Rightarrow> string" where
  "encode outcomeText codeString = outcomeText @ startMarker @ codeString @ endMarker"

text \<open>
  The three branches. The localisation function \<open>t(key, [argument])\<close> belongs to
  the i18n package and is a parameter \<open>tr\<close>; each outcome carries the one string
  its branch passes to it (\<open>outputStr\<close>, \<open>result.error\<close>, \<open>error.message\<close>).
\<close>

datatype outcome = Success string | Failure string | UnexpectedError string

fun outcomeText :: "(string \<Rightarrow> string list \<Rightarrow> string) \<Rightarrow> outcome \<Rightarrow> string" where
  "outcomeText tr (Success outputStr) = tr ''act_executeCode_ok'' [outputStr]"
| "outcomeText tr (Failure err) = tr ''act_executeCode_failed'' [err]"
| "outcomeText tr (UnexpectedError msg) = tr ''act_executeCode_error'' [msg]"

definition executeCodeMessage ::
  "(string \<Rightarrow> string list \<Rightarrow> string) \<Rightarrow> outcome \<Rightarrow> string \<Rightarrow> string" where
  "executeCodeMessage tr out codeString = encode (outcomeText tr out) codeString"

text \<open>
  The regular expression \<open>/<nano_executed_code>([\s\S]*?)<\/nano_executed_code>/\<close>.
  The engine tries start positions from the left; at a position where the start marker
  stands, the lazy group grows until the end marker follows. A match therefore begins at
  the leftmost start marker and ends with the first end marker after it; when no end
  marker follows the leftmost start marker, none follows a later one either and there is
  no match. The result is the index of the match, the captured group and the index just
  after the match.
\<close>

definition matchBlock :: "string \<Rightarrow> (nat \<times> string \<times> nat) option" where
  "matchBlock s =
     (case indexOf s startMarker of
        None \<Rightarrow> None
      | Some i \<Rightarrow>
          (let inner = drop (i + length startMarker) s
           in case indexOf inner endMarker of
                None \<Rightarrow> None
              | Some j \<Rightarrow>
                  Some (i, take j inner, i + length startMarker + j + length endMarker)))"

text \<open>\<open>content.match(...)\<close> followed by \<open>codeMatch[1]\<close>: the captured group, if any.\<close>

definition decode :: "string \<Rightarrow> string option" where
  "decode content = map_option (\<lambda>(i, captured, e). captured) (matchBlock content)"

definition hasCodeExecutedText :: "string \<Rightarrow> bool" where
  "hasCodeExecutedText content =
     (includes_str content ''Code executed'' \<or>
      includes_str content ''Code execution failed'' \<or>
      includes_str content ''Error executing code'')"

text \<open>
  \<open>codeToSave\<close> of \<open>MessageBlock\<close>: the code extracted earlier (\<open>executedCode\<close>,
  possibly \<open>undefined\<close>) unless it is absent or empty and the message carries one of the
  outcome phrasings, in which case the block of the message content is looked for.
\<close>

definition codeToSave :: "string option \<Rightarrow> string \<Rightarrow> string option" where
  "codeToSave executedCode content =
     (if (executedCode = None \<or> executedCode = Some []) \<and> hasCodeExecutedText content
      then (case decode content of Some c \<Rightarrow> Some c | None \<Rightarrow> executedCode)
      else executedCode)"



section \<open>URL patterns of favorites (favorites.ts, \<open>urlMatchesPattern\<close>)\<close>

text \<open>
  The first \<open>replace\<close> puts a backslash before every character of the class
  \<open>[.*+?^${}()|[\]\\]\<close>; the second one then replaces every \<open>*\<close> of its result
  by \<open>.*\<close>.
\<close>

definition backslash :: char where
  "backslash = CHR 0x5C"

definition syntaxChars :: "char list" where
  "syntaxChars = ''.*+?^${}()|[]'' @ [backslash]"

fun escapeSpecial :: "string \<Rightarrow> string" where
  "escapeSpecial [] = []"
| "escapeSpecial (c # cs) =
     (if c \<in> set syntaxChars then backslash # c # escapeSpecial cs
      else c # escapeSpecial cs)"

fun replaceStars :: "string \<Rightarrow> string" where
  "replaceStars [] = []"
| "replaceStars (c # cs) =
     (if c = CHR ''*'' then ''.*'' @ replaceStars cs else c # replaceStars cs)"

definition patternRegex :: "string \<Rightarrow> string" where
  "patternRegex pattern = replaceStars (escapeSpecial pattern)"

text \<open>
  \<open>new RegExp\<close> on the fragment of the syntax that \<open>patternRegex\<close> can produce:
  a sequence of characters, each written as itself or, for a syntax character, with a
  backslash before it, and each optionally followed by the quantifier \<open>*\<close>. A source
  text outside this fragment gives \<open>None\<close>, which stands for the \<open>SyntaxError\<close> of
  the constructor (a dangling backslash, a \<open>*\<close> with nothing to repeat).
\<close>

datatype token = Chr char | StarTok

fun tokenize :: "string \<Rightarrow> token list option" where
  "tokenize [] = Some []"
| "tokenize (c # cs) =
     (if c = backslash then
        (case cs of
           [] \<Rightarrow> None
         | e # rest \<Rightarrow>
             if e \<in> set syntaxChars then map_option ((#) (Chr e)) (tokenize rest) else None)
      else if c = CHR ''*'' then map_option ((#) StarTok) (tokenize cs)
      else if c \<in> set syntaxChars then None
      else map_option ((#) (Chr c)) (tokenize cs))"

datatype piece = Single char | Repeat char

fun pieces :: "token list \<Rightarrow> piece list option" where
  "pieces [] = Some []"
| "pieces (Chr a # StarTok # ts) = map_option ((#) (Repeat a)) (pieces ts)"
| "pieces (Chr a # ts) = map_option ((#) (Single a)) (pieces ts)"
| "pieces (StarTok # ts) = None"

definition parseRegExp :: "string \<Rightarrow> piece list option" where
  "parseRegExp src = (case tokenize src of None \<Rightarrow> None | Some ts \<Rightarrow> pieces ts)"

text \<open>
  Matching a whole string (the expression is built as \<open>^...$\<close>): a single character
  consumes itself, a repeated one any number of copies of itself. \<open>test\<close> answers
  whether some way of matching exists.
\<close>

fun matchPieces :: "piece list \<Rightarrow> string \<Rightarrow> bool" where
  "matchPieces [] s = (s = [])"
| "matchPieces (Single a # ps) [] = False"
| "matchPieces (Single a # ps) (x # xs) = (x = a \<and> matchPieces ps xs)"
| "matchPieces (Repeat a # ps) [] = matchPieces ps []"
| "matchPieces (Repeat a # ps) (x # xs) =
     (matchPieces ps (x # xs) \<or> (x = a \<and> matchPieces (Repeat a # ps) xs))"

definition regExpTest :: "string \<Rightarrow> string \<Rightarrow> bool option" where
  "regExpTest src s = map_option (\<lambda>ps. matchPieces ps s) (parseRegExp src)"

text \<open>
  The body of the \<open>try\<close> block. The constructor \<open>URL\<close> belongs to the browser; of the
  object it builds only \<open>origin\<close> is read, so it is the parameter \<open>origin\<close>, which
  gives the origin of a string that parses and \<open>None\<close> where the constructor throws.
\<close>

datatype js_error = TypeError | SyntaxError

definition tryBlock :: "(string \<Rightarrow> string option) \<Rightarrow> string \<Rightarrow> string \<Rightarrow> js_error + bool" where
  "tryBlock origin url pattern =
     (case origin url of
        None \<Rightarrow> Inl TypeError
      | Some urlOrigin \<Rightarrow>
          (case origin pattern of
             None \<Rightarrow> Inl TypeError
           | Some patternOrigin \<Rightarrow>
               if url = pattern then Inr True
               else if urlOrigin = patternOrigin then Inr True
               else (case regExpTest (patternRegex pattern) url of
                       None \<Rightarrow> Inl SyntaxError
                     | Some b \<Rightarrow> Inr b)))"

definition fallbackMatch :: "string \<Rightarrow> string \<Rightarrow> bool" where
  "fallbackMatch url pattern =
     (url = pattern \<or> includes_str url pattern \<or> includes_str pattern url)"

definition urlMatchesPattern :: "(string \<Rightarrow> string option) \<Rightarrow> string \<Rightarrow> string \<Rightarrow> bool" where
  "urlMatchesPattern origin url pattern =
     (case tryBlock origin url pattern of
        Inr b \<Rightarrow> b
      | Inl e \<Rightarrow> fallbackMatch url pattern)"


text \<open>
  The matching that the specification describes for a pattern with wildcards: every
  character other than \<open>*\<close> stands for itself, every \<open>*\<close> for any substring, and the
  whole of the url has to be matched.
\<close>

fun spec_wildcardMatch :: "string \<Rightarrow> string \<Rightarrow> bool" where
  "spec_wildcardMatch [] s = (s = [])"
| "spec_wildcardMatch (c # cs) [] = (c = CHR ''*'' \<and> spec_wildcardMatch cs [])"
| "spec_wildcardMatch (c # cs) (x # xs) =
     (if c = CHR ''*'' then spec_wildcardMatch cs (x # xs) \<or> spec_wildcardMatch (c # cs) xs
      else x = c \<and> spec_wildcardMatch cs xs)"

section \<open>Execution orchestrator (\<open>Executor.execute\<close>)\<close>

record GeneralSettingsConfig =
  allowCodeGeneration :: bool
  fastJsMode :: bool

text \<open>
  \<open>nSteps % planningInterval === 0\<close> on non-negative integers: the remainder by \<open>0\<close> is
  \<open>NaN\<close>, which is not \<open>0\<close>.
\<close>

definition remainderIsZero :: "nat \<Rightarrow> nat \<Rightarrow> bool" where
  "remainderIsZero n k = (k \<noteq> 0 \<and> n mod k = 0)"

text \<open>The guard of the planning pass, as the executor computes it in every iteration.\<close>

definition shouldRunPlanner :: "bool \<Rightarrow> bool \<Rightarrow> nat \<Rightarrow> nat \<Rightarrow> bool \<Rightarrow> bool" where
  "shouldRunPlanner hasPlanner jsOnlyForThisTask nSteps planningInterval navigatorDone =
     (hasPlanner \<and> \<not> jsOnlyForThisTask \<and>
      (remainderIsZero nSteps planningInterval \<or> navigatorDone))"

text \<open>
  The two flags computed before the loop. \<open>this.generalSettings\<close> may be absent, and
  \<open>this.tasks[this.tasks.length - 1]\<close> is \<open>undefined\<close> on an empty task list, so the
  classifier \<open>isClientSideJsTask\<close>, a heuristic on the text of the task that is a
  parameter here, takes a string option. The conjunction is short-circuit, but the
  classifier is pure, so evaluating it anyway changes nothing.
\<close>

definition currentTask :: "string list \<Rightarrow> string option" where
  "currentTask tasks = (if tasks = [] then None else Some (last tasks))"

definition fastJsModeEnabled :: "GeneralSettingsConfig option \<Rightarrow> bool" where
  "fastJsModeEnabled generalSettings =
     (case generalSettings of
        None \<Rightarrow> False
      | Some gs \<Rightarrow> fastJsMode gs = True \<and> allowCodeGeneration gs = True)"

definition jsOnlyForThisTask ::
  "(string option \<Rightarrow> bool) \<Rightarrow> GeneralSettingsConfig option \<Rightarrow> string list \<Rightarrow> bool" where
  "jsOnlyForThisTask isClientSideJsTask generalSettings tasks =
     (fastJsModeEnabled generalSettings \<and> isClientSideJsTask (currentTask tasks))"

text \<open>
  The loop runs against collaborators that are functions of the step counter: the
  planning pass gives a plan or fails (\<open>None\<close>), the execution pass reports completion
  or fails, and the cancellation signal is read after the execution pass. The trace of a
  run lists the passes in the order in which they were run.
\<close>

datatype terminal = Completed | Cancelled | Failed | MaxStepsReached

datatype pass = PlanningPass nat | ExecutionPass nat

record 'plan Executor =
  planner :: "(nat \<Rightarrow> 'plan option) option"
  checkTaskCompletion :: "'plan \<Rightarrow> bool"
  navigate :: "nat \<Rightarrow> bool option"
  shouldStop :: "nat \<Rightarrow> bool"
  maxSteps :: nat
  planningInterval :: nat
  tasks :: "string list"
  generalSettings :: "GeneralSettingsConfig option"

record 'plan LoopState =
  nSteps :: nat
  navigatorDone :: bool
  latestPlanOutput :: "'plan option"

datatype 'plan planning = NotRun | PlanFailed | Planned 'plan

definition planningPass :: "'plan Executor \<Rightarrow> bool \<Rightarrow> 'plan LoopState \<Rightarrow> 'plan planning" where
  "planningPass ex jsOnly st =
     (if shouldRunPlanner (planner ex \<noteq> None) jsOnly (nSteps st) (planningInterval ex)
           (navigatorDone st)
      then (case planner ex of
              None \<Rightarrow> NotRun
            | Some runPlanner \<Rightarrow>
                (case runPlanner (nSteps st) of
                   None \<Rightarrow> PlanFailed
                 | Some out \<Rightarrow> Planned out))
      else NotRun)"

text \<open>
  Modelled from the spec: the rest of an iteration of \<open>Executor.execute\<close> after the
  planning pass (section 4.4, steps 3 to 5). The execution pass always runs; the loop
  exits as completed if it reports completion and as cancelled if the cancellation
  signal is observed, and an error inside the pass ends the run as failed.
\<close>

definition executionPass ::
  "'plan Executor \<Rightarrow> 'plan LoopState \<Rightarrow> pass list \<times> (terminal + 'plan LoopState)" where
  "executionPass ex st =
     ([ExecutionPass (nSteps st)],
      case navigate ex (nSteps st) of
        None \<Rightarrow> Inl Failed
      | Some finished \<Rightarrow>
          if finished then Inl Completed
          else if shouldStop ex (nSteps st) then Inl Cancelled
          else Inr (st\<lparr>navigatorDone := finished\<rparr>))"

text \<open>
  Modelled from the spec: one iteration of the loop of \<open>Executor.execute\<close> (section
  4.4, steps 1 and 2). The step counter is incremented before any work; the planning
  pass runs under the guard, resets the flag of the navigator and stores its output; if
  that output says the task is complete the loop exits as completed without an
  execution pass.
\<close>

definition iteration ::
  "'plan Executor \<Rightarrow> bool \<Rightarrow> 'plan LoopState \<Rightarrow> pass list \<times> (terminal + 'plan LoopState)" where
  "iteration ex jsOnly st0 =
     (let st = st0\<lparr>nSteps := nSteps st0 + 1\<rparr>
      in case planningPass ex jsOnly st of
           NotRun \<Rightarrow> executionPass ex st
         | PlanFailed \<Rightarrow> ([PlanningPass (nSteps st)], Inl Failed)
         | Planned out \<Rightarrow>
             if checkTaskCompletion ex out
             then ([PlanningPass (nSteps st)], Inl Completed)
             else (let (ps, r) =
                         executionPass ex (st\<lparr>navigatorDone := False, latestPlanOutput := Some out\<rparr>)
                   in (PlanningPass (nSteps st) # ps, r)))"

text \<open>
  Modelled from the spec: the loop of \<open>Executor.execute\<close> itself (section 4.4, steps 6
  and 7), bounded by \<open>maxSteps\<close>; the flag \<open>jsOnly\<close> is handed from iteration to
  iteration as it was computed.
\<close>

function stepLoop :: "'plan Executor \<Rightarrow> bool \<Rightarrow> 'plan LoopState \<Rightarrow> pass list \<times> terminal" where
  "stepLoop ex jsOnly st =
     (if maxSteps ex \<le> nSteps st then ([], MaxStepsReached)
      else (case iteration ex jsOnly st of
              (ps, Inl t) \<Rightarrow> (ps, t)
            | (ps, Inr st') \<Rightarrow>
                (let (ps', t) = stepLoop ex jsOnly st' in (ps @ ps', t))))"
  by pat_completeness auto
termination
  apply (relation "measure (\<lambda>(ex, jsOnly, st). maxSteps ex - nSteps st)")
   apply simp
  apply (auto simp: iteration_def executionPass_def Let_def
      split: planning.splits option.splits if_splits prod.splits)
  done

declare stepLoop.simps [simp del]

text \<open>
  Modelled from the spec: the setup of \<open>Executor.execute\<close> (section 4.4), which
  computes the flag once from the settings and the current task and enters the loop
  with the counter at \<open>0\<close>.
\<close>

definition execute :: "'plan Executor \<Rightarrow> (string option \<Rightarrow> bool) \<Rightarrow> pass list \<times> terminal" where
  "execute ex isClientSideJsTask =
     stepLoop ex (jsOnlyForThisTask isClientSideJsTask (generalSettings ex) (tasks ex))
       \<lparr>nSteps = 0, navigatorDone = False, latestPlanOutput = None\<rparr>"

fun isPlanningPass :: "pass \<Rightarrow> bool" where
  "isPlanningPass (PlanningPass n) = True"
| "isPlanningPass (ExecutionPass n) = False"

section \<open>Navigator prompt (prompts/navigator.ts)\<close>










section \<open>Properties of the favorites store\<close>

lemma store_inv_initial: "store_inv initialState"
  by (simp add: store_inv_def ids_below_next_def initialState_def)

lemma store_inv_add: "store_inv st \<Longrightarrow> store_inv (fst (addFavorite now n c u st))"
  by (auto simp: store_inv_def ids_below_next_def addFavorite_def Let_def list_all_iff)

lemma id_fav_comp_update:
  "id_fav \<circ> (\<lambda>f. if id_fav f = i then f\<lparr>name := n, code := c, urlPattern := u\<rparr> else f)
     = id_fav"
  by (rule ext) simp

lemma store_inv_update: "store_inv st \<Longrightarrow> store_inv (fst (updateFavorite i n c u st))"
  by (auto simp: store_inv_def ids_below_next_def updateFavorite_def Let_def list_all_iff
      id_fav_comp_update split: list.splits)

lemma store_inv_remove: "store_inv st \<Longrightarrow> store_inv (removeFavorite i st)"
  by (auto simp: store_inv_def ids_below_next_def removeFavorite_def list_all_iff distinct_map_filter)

lemma id_fav_comp_increment:
  "id_fav \<circ> (\<lambda>f. if id_fav f = i then f\<lparr>useCount := useCount f + 1\<rparr> else f) = id_fav"
  by (rule ext) simp

lemma store_inv_increment: "store_inv st \<Longrightarrow> store_inv (incrementUseCount i st)"
  by (auto simp: store_inv_def ids_below_next_def incrementUseCount_def list_all_iff id_fav_comp_increment)

lemma store_inv_apply_op: "store_inv st \<Longrightarrow> store_inv (fst (apply_op x st))"
  by (cases x) (simp_all add: store_inv_add store_inv_update store_inv_remove store_inv_increment)

lemma store_inv_run_ops: "store_inv st \<Longrightarrow> store_inv (run_ops xs st)"
  by (induction xs arbitrary: st) (simp_all add: store_inv_apply_op)

lemma nextId_apply_op: "nextId st \<le> nextId (fst (apply_op x st))"
  by (cases x)
    (auto simp: addFavorite_def updateFavorite_def removeFavorite_def incrementUseCount_def
      Let_def split: list.splits)

lemma allocated_ids_sorted:
  "sorted_wrt (<) (allocated_ids xs st) \<and> (\<forall>i \<in> set (allocated_ids xs st). nextId st \<le> i)"
proof (induction xs arbitrary: st)
  case Nil
  show ?case by simp
next
  case (Cons x xs)
  show ?case
  proof (cases x)
    case (AddFavorite now n c u)
    let ?st' = "\<lparr>nextId = nextId st + 1,
                  favorites = \<lparr>id_fav = nextId st, name = n, code = c, urlPattern = u,
                                useCount = 0, createdAt = now\<rparr> # favorites st\<rparr>"
    have step: "allocated_ids (x # xs) st = nextId st # allocated_ids xs ?st'"
      by (simp add: AddFavorite addFavorite_def Let_def)
    from Cons [of ?st'] show ?thesis
      unfolding step by fastforce
  next
    case (UpdateFavorite i n c u)
    with Cons [of "fst (apply_op x st)"] nextId_apply_op [of st x] show ?thesis
      by fastforce
  next
    case (RemoveFavorite i)
    with Cons [of "fst (apply_op x st)"] nextId_apply_op [of st x] show ?thesis
      by fastforce
  next
    case (IncrementUseCount i)
    with Cons [of "fst (apply_op x st)"] nextId_apply_op [of st x] show ?thesis
      by fastforce
  qed
qed

lemma updateFavorite_absent:
  "\<forall>f \<in> set (favorites st). id_fav f \<noteq> i \<Longrightarrow> updateFavorite i n c u st = (st, None)"
  by (simp add: updateFavorite_def filter_empty_conv[THEN iffD2] split: list.splits)

lemma updateFavorite_present:
  assumes "\<exists>f \<in> set (favorites st). id_fav f = i"
  shows "\<exists>g \<in> set (favorites st). id_fav g = i \<and>
           updateFavorite i n c u st =
             (st\<lparr>favorites := map (\<lambda>f. if id_fav f = i
                       then f\<lparr>name := n, code := c, urlPattern := u\<rparr> else f) (favorites st)\<rparr>,
              Some (g\<lparr>name := n, code := c, urlPattern := u\<rparr>))"
proof -
  let ?hits = "filter (\<lambda>f. id_fav f = i) (favorites st)"
  from assms have ne: "?hits \<noteq> []"
    by (simp add: filter_empty_conv)
  then obtain f fs where hits: "?hits = f # fs"
    by (cases ?hits) auto
  have "last ?hits \<in> set ?hits"
    using ne by (rule last_in_set)
  then have g: "last (f # fs) \<in> set (favorites st)" "id_fav (last (f # fs)) = i"
    unfolding hits[symmetric] by auto
  have "updateFavorite i n c u st =
      (st\<lparr>favorites := map (\<lambda>f. if id_fav f = i
                       then f\<lparr>name := n, code := c, urlPattern := u\<rparr> else f) (favorites st)\<rparr>,
              Some ((last (f # fs))\<lparr>name := n, code := c, urlPattern := u\<rparr>))"
    by (simp add: updateFavorite_def hits del: last.simps)
  with g show ?thesis by blast
qed

text \<open>
  Claim C8. \<open>updateFavorite\<close>, on every collection: when no record has the identifier,
  it returns nothing and leaves the collection as it was; when one has, it returns that
  record with the new name, code and pattern, leaves \<open>nextId\<close> and the number and
  order of the records alone, keeps the identifier, use count and creation time of every
  record, and changes no record with another identifier.
\<close>

theorem updateFavorite_contract:
  "((\<forall>f \<in> set (favorites st). id_fav f \<noteq> i) \<longrightarrow>
      updateFavorite i n c u st = (st, None)) \<and>
   ((\<exists>f \<in> set (favorites st). id_fav f = i) \<longrightarrow>
      (\<exists>g \<in> set (favorites st). id_fav g = i \<and>
         snd (updateFavorite i n c u st) = Some (g\<lparr>name := n, code := c, urlPattern := u\<rparr>)) \<and>
      (\<exists>r. snd (updateFavorite i n c u st) = Some r \<and>
         r \<in> set (favorites (fst (updateFavorite i n c u st))) \<and>
         id_fav r = i \<and> name r = n \<and> code r = c \<and> urlPattern r = u) \<and>
      nextId (fst (updateFavorite i n c u st)) = nextId st \<and>
      length (favorites (fst (updateFavorite i n c u st))) = length (favorites st) \<and>
      (\<forall>k < length (favorites st).
         let old = favorites st ! k; new = favorites (fst (updateFavorite i n c u st)) ! k
         in id_fav new = id_fav old \<and> useCount new = useCount old \<and>
            createdAt new = createdAt old \<and>
            (if id_fav old = i then name new = n \<and> code new = c \<and> urlPattern new = u
             else new = old)))"
proof (intro conjI impI)
  assume "\<forall>f \<in> set (favorites st). id_fav f \<noteq> i"
  then show "updateFavorite i n c u st = (st, None)"
    by (rule updateFavorite_absent)
next
  assume ex: "\<exists>f \<in> set (favorites st). id_fav f = i"
  from updateFavorite_present [OF ex, of n c u]
  obtain g where g: "g \<in> set (favorites st)" "id_fav g = i"
    and eq: "updateFavorite i n c u st =
             (st\<lparr>favorites := map (\<lambda>f. if id_fav f = i
                       then f\<lparr>name := n, code := c, urlPattern := u\<rparr> else f) (favorites st)\<rparr>,
              Some (g\<lparr>name := n, code := c, urlPattern := u\<rparr>))"
    by blast
  show "\<exists>g \<in> set (favorites st). id_fav g = i \<and>
         snd (updateFavorite i n c u st) = Some (g\<lparr>name := n, code := c, urlPattern := u\<rparr>)"
    using g eq by auto
  show "\<exists>r. snd (updateFavorite i n c u st) = Some r \<and>
         r \<in> set (favorites (fst (updateFavorite i n c u st))) \<and>
         id_fav r = i \<and> name r = n \<and> code r = c \<and> urlPattern r = u"
    using g unfolding eq by (auto simp: image_iff intro!: bexI[of _ g])
  show "nextId (fst (updateFavorite i n c u st)) = nextId st"
    unfolding eq by simp
  show "length (favorites (fst (updateFavorite i n c u st))) = length (favorites st)"
    unfolding eq by simp
  show "\<forall>k < length (favorites st).
         let old = favorites st ! k; new = favorites (fst (updateFavorite i n c u st)) ! k
         in id_fav new = id_fav old \<and> useCount new = useCount old \<and>
            createdAt new = createdAt old \<and>
            (if id_fav old = i then name new = n \<and> code new = c \<and> urlPattern new = u
             else new = old)"
    unfolding eq by (simp add: Let_def)
qed


theorem updateFavorite_contract_witness:
  "(\<exists>f \<in> set [\<lparr>id_fav = 2, name = ''b'', code = ''g()'', urlPattern = ''https://b.org/'',
                      useCount = 0, createdAt = 200\<rparr>,
                    \<lparr>id_fav = 1, name = ''a'', code = ''f()'', urlPattern = ''https://a.org/'',
                      useCount = 3, createdAt = 100\<rparr>]. id_fav f = 1) \<and>
   7 \<notin> set (map id_fav
                [\<lparr>id_fav = 2, name = ''b'', code = ''g()'', urlPattern = ''https://b.org/'',
                      useCount = 0, createdAt = 200\<rparr>,
                    \<lparr>id_fav = 1, name = ''a'', code = ''f()'', urlPattern = ''https://a.org/'',
                      useCount = 3, createdAt = 100\<rparr>]) \<and>
   updateFavorite 1 ''c'' ''h()'' ''*''
     \<lparr>nextId = 3,
      favorites = [\<lparr>id_fav = 2, name = ''b'', code = ''g()'', urlPattern = ''https://b.org/'',
                      useCount = 0, createdAt = 200\<rparr>,
                   \<lparr>id_fav = 1, name = ''a'', code = ''f()'', urlPattern = ''https://a.org/'',
                      useCount = 3, createdAt = 100\<rparr>]\<rparr>
   = (\<lparr>nextId = 3,
      favorites = [\<lparr>id_fav = 2, name = ''b'', code = ''g()'', urlPattern = ''https://b.org/'',
                      useCount = 0, createdAt = 200\<rparr>,
                   \<lparr>id_fav = 1, name = ''c'', code = ''h()'', urlPattern = ''*'',
                      useCount = 3, createdAt = 100\<rparr>]\<rparr>,
      Some \<lparr>id_fav = 1, name = ''c'', code = ''h()'', urlPattern = ''*'',
                      useCount = 3, createdAt = 100\<rparr>) \<and>
   updateFavorite 7 ''c'' ''h()'' ''*''
     \<lparr>nextId = 3,
      favorites = [\<lparr>id_fav = 2, name = ''b'', code = ''g()'', urlPattern = ''https://b.org/'',
                      useCount = 0, createdAt = 200\<rparr>,
                   \<lparr>id_fav = 1, name = ''a'', code = ''f()'', urlPattern = ''https://a.org/'',
                      useCount = 3, createdAt = 100\<rparr>]\<rparr>
   = (\<lparr>nextId = 3,
      favorites = [\<lparr>id_fav = 2, name = ''b'', code = ''g()'', urlPattern = ''https://b.org/'',
                      useCount = 0, createdAt = 200\<rparr>,
                   \<lparr>id_fav = 1, name = ''a'', code = ''f()'', urlPattern = ''https://a.org/'',
                      useCount = 3, createdAt = 100\<rparr>]\<rparr>, None)"
  using
    updateFavorite_contract [of
      "\<lparr>nextId = 3,
      favorites = [\<lparr>id_fav = 2, name = ''b'', code = ''g()'', urlPattern = ''https://b.org/'',
                      useCount = 0, createdAt = 200\<rparr>,
                   \<lparr>id_fav = 1, name = ''a'', code = ''f()'', urlPattern = ''https://a.org/'',
                      useCount = 3, createdAt = 100\<rparr>]\<rparr>" 7 "''c''" "''h()''" "''*''"]
    updateFavorite_contract [of
      "\<lparr>nextId = 3,
      favorites = [\<lparr>id_fav = 2, name = ''b'', code = ''g()'', urlPattern = ''https://b.org/'',
                      useCount = 0, createdAt = 200\<rparr>,
                   \<lparr>id_fav = 1, name = ''a'', code = ''f()'', urlPattern = ''https://a.org/'',
                      useCount = 3, createdAt = 100\<rparr>]\<rparr>" 1 "''c''" "''h()''" "''*''"]
  by (simp add: updateFavorite_def)

lemma nextId_run_ops: "nextId st \<le> nextId (run_ops xs st)"
proof (induction xs arbitrary: st)
  case Nil
  show ?case by simp
next
  case (Cons x xs)
  have "nextId st \<le> nextId (fst (apply_op x st))"
    by (rule nextId_apply_op)
  also have "\<dots> \<le> nextId (run_ops xs (fst (apply_op x st)))"
    by (rule Cons)
  finally show ?case by simp
qed

lemma allocated_ids_below_next:
  "\<forall>i \<in> set (allocated_ids xs st). i < nextId (run_ops xs st)"
proof (induction xs arbitrary: st)
  case Nil
  show ?case by simp
next
  case (Cons x xs)
  show ?case
  proof (cases x)
    case (AddFavorite now n c u)
    let ?st' = "\<lparr>nextId = nextId st + 1,
                  favorites = \<lparr>id_fav = nextId st, name = n, code = c, urlPattern = u,
                                useCount = 0, createdAt = now\<rparr> # favorites st\<rparr>"
    have step: "allocated_ids (x # xs) st = nextId st # allocated_ids xs ?st'"
      and run: "run_ops (x # xs) st = run_ops xs ?st'"
      by (simp_all add: AddFavorite addFavorite_def Let_def)
    have "nextId st < nextId ?st'" by simp
    also have "\<dots> \<le> nextId (run_ops xs ?st')" by (rule nextId_run_ops)
    finally show ?thesis
      unfolding step run using Cons [of ?st'] by simp
  next
    case (UpdateFavorite i n c u)
    with Cons [of "fst (apply_op x st)"] show ?thesis by simp
  next
    case (RemoveFavorite i)
    with Cons [of "fst (apply_op x st)"] show ?thesis by simp
  next
    case (IncrementUseCount i)
    with Cons [of "fst (apply_op x st)"] show ?thesis by simp
  qed
qed

lemma addFavorite_twice:
  "\<exists>st1 f1 st2 f2.
      addFavorite t1 n1 c1 u1 st = (st1, Some f1) \<and>
      addFavorite t2 n2 c2 u2 st1 = (st2, Some f2) \<and>
      id_fav f1 = nextId st \<and> id_fav f2 = nextId st + 1"
  by (simp add: addFavorite_def Let_def)

text \<open>
  Claim C6. In every collection reached from the initial one by a sequence of
  \<open>addFavorite\<close>, \<open>updateFavorite\<close>, \<open>removeFavorite\<close> and \<open>incrementUseCount\<close>,
  every identifier present is below \<open>nextId\<close> and no two records share one; the
  identifiers handed out along the way are strictly increasing, so none is handed out
  twice, whatever was removed in between; and two further calls of \<open>addFavorite\<close>
  return two identifiers, the second greater than the first, the first greater than
  every identifier present or handed out before.
\<close>

theorem identifier_space_invariant:
  "(\<forall>f \<in> set (favorites (run_ops xs initialState)).
       id_fav f < nextId (run_ops xs initialState)) \<and>
   distinct (map id_fav (favorites (run_ops xs initialState))) \<and>
   sorted_wrt (<) (allocated_ids xs initialState) \<and>
   (\<forall>i \<in> set (allocated_ids xs initialState). 1 \<le> i \<and> i < nextId (run_ops xs initialState)) \<and>
   (\<exists>st1 f1 st2 f2.
      addFavorite t1 n1 c1 u1 (run_ops xs initialState) = (st1, Some f1) \<and>
      addFavorite t2 n2 c2 u2 st1 = (st2, Some f2) \<and>
      id_fav f1 < id_fav f2 \<and>
      (\<forall>f \<in> set (favorites (run_ops xs initialState)). id_fav f < id_fav f1) \<and>
      (\<forall>i \<in> set (allocated_ids xs initialState). i < id_fav f1))"
proof -
  let ?st = "run_ops xs initialState"
  have inv: "store_inv ?st"
    by (rule store_inv_run_ops) (rule store_inv_initial)
  then have below: "\<forall>f \<in> set (favorites ?st). id_fav f < nextId ?st"
    and dist: "distinct (map id_fav (favorites ?st))"
    by (simp_all add: store_inv_def ids_below_next_def list_all_iff)
  have sorted: "sorted_wrt (<) (allocated_ids xs initialState)"
    and lower: "\<forall>i \<in> set (allocated_ids xs initialState). 1 \<le> i"
    using allocated_ids_sorted [of xs initialState] by (simp_all add: initialState_def)
  have upper: "\<forall>i \<in> set (allocated_ids xs initialState). i < nextId ?st"
    by (rule allocated_ids_below_next)
  from addFavorite_twice [of t1 n1 c1 u1 ?st t2 n2 c2 u2]
  obtain st1 f1 st2 f2 where
    adds: "addFavorite t1 n1 c1 u1 ?st = (st1, Some f1)"
      "addFavorite t2 n2 c2 u2 st1 = (st2, Some f2)"
    and ids: "id_fav f1 = nextId ?st" "id_fav f2 = nextId ?st + 1"
    by blast
  have "\<exists>st1 f1 st2 f2.
      addFavorite t1 n1 c1 u1 ?st = (st1, Some f1) \<and>
      addFavorite t2 n2 c2 u2 st1 = (st2, Some f2) \<and>
      id_fav f1 < id_fav f2 \<and>
      (\<forall>f \<in> set (favorites ?st). id_fav f < id_fav f1) \<and>
      (\<forall>i \<in> set (allocated_ids xs initialState). i < id_fav f1)"
    using adds ids below upper by (intro exI[of _ st1] exI[of _ f1] exI[of _ st2] exI[of _ f2]) simp
  with below dist sorted lower upper show ?thesis by blast
qed

theorem identifier_space_invariant_witness:
  "allocated_ids [AddFavorite 100 ''a'' ''f()'' ''https://a.org/'',
                  AddFavorite 200 ''b'' ''g()'' ''https://b.org/'',
                  RemoveFavorite 2,
                  AddFavorite 300 ''c'' ''h()'' ''https://c.org/''] initialState = [1, 2, 3] \<and>
   map id_fav (favorites (run_ops [AddFavorite 100 ''a'' ''f()'' ''https://a.org/'',
                  AddFavorite 200 ''b'' ''g()'' ''https://b.org/'',
                  RemoveFavorite 2,
                  AddFavorite 300 ''c'' ''h()'' ''https://c.org/''] initialState)) = [3, 1] \<and>
   nextId (run_ops [AddFavorite 100 ''a'' ''f()'' ''https://a.org/'',
                  AddFavorite 200 ''b'' ''g()'' ''https://b.org/'',
                  RemoveFavorite 2,
                  AddFavorite 300 ''c'' ''h()'' ''https://c.org/''] initialState) = 4 \<and>
   list_all (\<lambda>f. id_fav f < 4)
     (favorites (run_ops [AddFavorite 100 ''a'' ''f()'' ''https://a.org/'',
                  AddFavorite 200 ''b'' ''g()'' ''https://b.org/'',
                  RemoveFavorite 2,
                  AddFavorite 300 ''c'' ''h()'' ''https://c.org/''] initialState))"
  using identifier_space_invariant [of
      "[AddFavorite 100 ''a'' ''f()'' ''https://a.org/'',
                  AddFavorite 200 ''b'' ''g()'' ''https://b.org/'',
                  RemoveFavorite 2,
                  AddFavorite 300 ''c'' ''h()'' ''https://c.org/'']"]
  by (simp add: initialState_def addFavorite_def removeFavorite_def Let_def)

section \<open>Properties of the provenance codec\<close>

lemma indexOf_None_iff: "indexOf s p = None \<longleftrightarrow> \<not> sublist p s"
  by (induction s) (auto simp: sublist_Cons_right)

lemma includes_str_iff_sublist: "includes_str s p \<longleftrightarrow> sublist p s"
  by (simp add: includes_str_def indexOf_None_iff)

lemma includes_str_iff: "includes_str s p \<longleftrightarrow> (\<exists>a b. s = a @ p @ b)"
  by (simp add: includes_str_iff_sublist sublist_def)



text \<open>A pattern whose first character does not occur again in it cannot overlap itself.\<close>

lemma indexOf_append_marker:
  assumes p: "p = x # q" "x \<notin> set q" and t: "\<not> sublist p t"
  shows "indexOf (t @ p @ r) p = Some (length t)"
  using t
proof (induction t)
  case Nil
  show ?case by (simp add: p)
next
  case (Cons y t)
  from Cons.prems have np: "\<not> prefix p (y # t)" and ns: "\<not> sublist p t"
    by (auto simp: sublist_Cons_right)
  have "\<not> prefix p (y # t @ p @ r)"
  proof
    assume "prefix p (y # t @ p @ r)"
    then have xy: "x = y" and pq: "prefix q (t @ x # q @ r)"
      by (auto simp: p)
    from np xy have "\<not> prefix q t" by (simp add: p)
    with pq obtain us where us: "q = t @ us" "prefix us (x # q @ r)"
      by (auto simp: prefix_append)
    with \<open>\<not> prefix q t\<close> have "us \<noteq> []" by auto
    with us(2) have "hd us = x" by (cases us) auto
    with \<open>us \<noteq> []\<close> us(1) have "x \<in> set q" by (cases us) auto
    with p(2) show False by contradiction
  qed
  with Cons.IH [OF ns] show ?case by simp
qed

lemma startMarker_shape: "\<exists>q. startMarker = CHR ''<'' # q \<and> CHR ''<'' \<notin> set q"
  by (simp add: startMarker_def)

lemma endMarker_shape: "\<exists>q. endMarker = CHR ''<'' # q \<and> CHR ''<'' \<notin> set q"
  by (simp add: endMarker_def)

lemma indexOf_startMarker:
  "\<not> sublist startMarker t \<Longrightarrow> indexOf (t @ startMarker @ r) startMarker = Some (length t)"
  using startMarker_shape indexOf_append_marker by blast

lemma indexOf_endMarker:
  "\<not> sublist endMarker c \<Longrightarrow> indexOf (c @ endMarker @ r) endMarker = Some (length c)"
  using endMarker_shape indexOf_append_marker by blast

lemma matchBlock_encode:
  assumes "\<not> sublist startMarker t" "\<not> sublist endMarker c"
  shows "matchBlock (t @ startMarker @ c @ endMarker @ r) =
           Some (length t, c, length t + length startMarker + length c + length endMarker)"
  using indexOf_startMarker [OF assms(1), of "c @ endMarker @ r"]
    indexOf_endMarker [OF assms(2), of r]
  by (simp add: matchBlock_def Let_def)

lemma decode_encode:
  assumes "\<not> sublist startMarker t" "\<not> sublist endMarker c"
  shows "decode (encode t c) = Some c"
  using matchBlock_encode [OF assms, of "[]"] by (simp add: decode_def encode_def)










text \<open>
  Claim C5. The predicate holds exactly for the contents in which one of the three
  phrasings occurs, so for each of them and not for success alone; it fails for a
  message with none of them, such as the progress placeholder.
\<close>

theorem outcome_detection:
  "(hasCodeExecutedText content \<longleftrightarrow>
      (\<exists>a b. content = a @ ''Code executed'' @ b) \<or>
      (\<exists>a b. content = a @ ''Code execution failed'' @ b) \<or>
      (\<exists>a b. content = a @ ''Error executing code'' @ b)) \<and>
   hasCodeExecutedText (a @ ''Code executed'' @ b) \<and>
   hasCodeExecutedText (a @ ''Code execution failed'' @ b) \<and>
   hasCodeExecutedText (a @ ''Error executing code'' @ b) \<and>
   \<not> hasCodeExecutedText ''Showing progress...''"
proof (intro conjI)
  show "hasCodeExecutedText content \<longleftrightarrow>
      (\<exists>a b. content = a @ ''Code executed'' @ b) \<or>
      (\<exists>a b. content = a @ ''Code execution failed'' @ b) \<or>
      (\<exists>a b. content = a @ ''Error executing code'' @ b)"
    unfolding hasCodeExecutedText_def includes_str_iff ..
  show "hasCodeExecutedText (a @ ''Code executed'' @ b)"
    unfolding hasCodeExecutedText_def includes_str_iff by blast
  show "hasCodeExecutedText (a @ ''Code execution failed'' @ b)"
    unfolding hasCodeExecutedText_def includes_str_iff by blast
  show "hasCodeExecutedText (a @ ''Error executing code'' @ b)"
    unfolding hasCodeExecutedText_def includes_str_iff by blast
  show "\<not> hasCodeExecutedText ''Showing progress...''"
    by code_simp
qed

theorem outcome_detection_witness:
  "hasCodeExecutedText ''Code executed successfully. Output: 42'' \<and>
   hasCodeExecutedText ''Code execution failed: x is not defined'' \<and>
   hasCodeExecutedText ''Navigator: Error executing code: timeout'' \<and>
   \<not> hasCodeExecutedText ''Showing progress...''"
  using outcome_detection [of "[]" "[]" "'' successfully. Output: 42''"]
    outcome_detection [of "[]" "[]" "'': x is not defined''"]
    outcome_detection [of "[]" "''Navigator: ''" "'': timeout''"]
  by simp

text \<open>
  Claim C2, as stated, fails: a code string in which the end marker occurs is cut at
  that occurrence.
\<close>

theorem roundtrip_counterexample:
  "decode (encode ''Code execution failed: boom'' ''a</nano_executed_code>b'') = Some ''a'' \<and>
   decode (encode ''Code execution failed: boom'' ''a</nano_executed_code>b'')
     \<noteq> Some ''a</nano_executed_code>b''"
  by code_simp

text \<open>
  Claim C2, amended. On each of the three outcome branches the message is the outcome
  text followed by the start marker, the code and the end marker; when the start marker
  does not occur in the outcome text and the end marker does not occur in the code, the
  block found in the message is exactly the code, and \<open>MessageBlock\<close>, given no code
  extracted earlier, recovers it whenever the message carries an outcome phrasing.
\<close>

theorem encode_decode_roundtrip:
  assumes "\<not> includes_str (outcomeText tr out) startMarker"
    and "\<not> includes_str c endMarker"
  shows "executeCodeMessage tr out c = outcomeText tr out @ startMarker @ c @ endMarker \<and>
         decode (executeCodeMessage tr out c) = Some c \<and>
         codeToSave None (executeCodeMessage tr out c) =
           (if hasCodeExecutedText (executeCodeMessage tr out c) then Some c else None)"
proof -
  from assms have "decode (encode (outcomeText tr out) c) = Some c"
    by (intro decode_encode) (simp_all add: includes_str_iff_sublist)
  then show ?thesis
    by (simp add: executeCodeMessage_def encode_def codeToSave_def)
qed

theorem encode_decode_roundtrip_witness:
  "decode (executeCodeMessage (\<lambda>key args. ''Code executed successfully. Output: '' @ concat args)
      (Success ''done'') ''() => 1'') = Some ''() => 1'' \<and>
   decode (executeCodeMessage (\<lambda>key args. ''Code execution failed: '' @ concat args)
      (Failure ''boom'') ''() => 1'') = Some ''() => 1'' \<and>
   codeToSave None (executeCodeMessage (\<lambda>key args. ''Error executing code: '' @ concat args)
      (UnexpectedError ''boom'') ''() => 1'') = Some ''() => 1''"
proof -
  have c: "\<not> includes_str ''() => 1'' endMarker"
    by code_simp
  have t1: "\<not> includes_str (outcomeText
      (\<lambda>key args. ''Code executed successfully. Output: '' @ concat args) (Success ''done''))
      startMarker"
    by code_simp
  have t2: "\<not> includes_str (outcomeText
      (\<lambda>key args. ''Code execution failed: '' @ concat args) (Failure ''boom'')) startMarker"
    by code_simp
  have t3: "\<not> includes_str (outcomeText
      (\<lambda>key args. ''Error executing code: '' @ concat args) (UnexpectedError ''boom''))
      startMarker"
    by code_simp
  have h: "hasCodeExecutedText (executeCodeMessage
      (\<lambda>key args. ''Error executing code: '' @ concat args) (UnexpectedError ''boom'') ''() => 1'')"
    by code_simp
  from encode_decode_roundtrip [OF t1 c]
  have r1: "decode (executeCodeMessage
      (\<lambda>key args. ''Code executed successfully. Output: '' @ concat args)
      (Success ''done'') ''() => 1'') = Some ''() => 1''"
    by blast
  from encode_decode_roundtrip [OF t2 c]
  have r2: "decode (executeCodeMessage (\<lambda>key args. ''Code execution failed: '' @ concat args)
      (Failure ''boom'') ''() => 1'') = Some ''() => 1''"
    by blast
  from encode_decode_roundtrip [OF t3 c]
  have "codeToSave None (executeCodeMessage
      (\<lambda>key args. ''Error executing code: '' @ concat args)
      (UnexpectedError ''boom'') ''() => 1'') =
    (if hasCodeExecutedText (executeCodeMessage
      (\<lambda>key args. ''Error executing code: '' @ concat args)
      (UnexpectedError ''boom'') ''() => 1'') then Some ''() => 1'' else None)"
    by blast
  then have r3: "codeToSave None (executeCodeMessage
      (\<lambda>key args. ''Error executing code: '' @ concat args)
      (UnexpectedError ''boom'') ''() => 1'') = Some ''() => 1''"
    by (simp only: h if_True)
  from r1 r2 r3 show ?thesis by (intro conjI)
qed




section \<open>Properties of URL pattern matching\<close>

lemma tokenize_patternRegex:
  "tokenize (patternRegex p) =
     Some (concat (map (\<lambda>c. if c = CHR ''*'' then [Chr (CHR ''.''), StarTok] else [Chr c]) p))"
  unfolding patternRegex_def
  by (induction p) (auto simp: syntaxChars_def backslash_def)

lemma pieces_tokens:
  "pieces (concat (map (\<lambda>c. if c = CHR ''*'' then [Chr (CHR ''.''), StarTok] else [Chr c]) p)) =
     Some (map (\<lambda>c. if c = CHR ''*'' then Repeat (CHR ''.'') else Single c) p)"
proof (induction p)
  case Nil
  show ?case by simp
next
  case (Cons c p)
  then show ?case by (cases p) auto
qed

lemma parseRegExp_patternRegex:
  "parseRegExp (patternRegex p) =
     Some (map (\<lambda>c. if c = CHR ''*'' then Repeat (CHR ''.'') else Single c) p)"
  by (simp add: parseRegExp_def tokenize_patternRegex pieces_tokens)

lemma regExpTest_patternRegex:
  "regExpTest (patternRegex p) s =
     Some (matchPieces (map (\<lambda>c. if c = CHR ''*'' then Repeat (CHR ''.'') else Single c) p) s)"
  by (simp add: regExpTest_def parseRegExp_patternRegex)


lemma tryBlock_parsed:
  assumes "origin url = Some a" "origin pattern = Some b"
  shows "tryBlock origin url pattern =
           Inr (url = pattern \<or> a = b \<or>
                matchPieces (map (\<lambda>c. if c = CHR ''*'' then Repeat (CHR ''.'') else Single c)
                   pattern) url)"
  using assms by (simp add: tryBlock_def regExpTest_patternRegex)

lemma tryBlock_unparsed:
  "origin url = None \<or> origin pattern = None \<Longrightarrow> tryBlock origin url pattern = Inl TypeError"
  by (auto simp: tryBlock_def split: option.splits)

text \<open>
  Claim C9. Matching never raises: the regular expression built from a pattern is
  always well formed, the body of the \<open>try\<close> block raises exactly when one of the two
  strings does not parse as a URL, and then with the \<open>TypeError\<close> that the handler
  catches, whose own expression cannot raise. In that case the result is equality or
  containment of one string in the other, in either direction.
\<close>

theorem urlMatchesPattern_total:
  "regExpTest (patternRegex pattern) url \<noteq> None \<and>
   ((\<exists>e. tryBlock origin url pattern = Inl e) \<longleftrightarrow> origin url = None \<or> origin pattern = None) \<and>
   tryBlock origin url pattern \<noteq> Inl SyntaxError \<and>
   (origin url = None \<or> origin pattern = None \<longrightarrow>
      urlMatchesPattern origin url pattern =
        (url = pattern \<or> (\<exists>a b. url = a @ pattern @ b) \<or> (\<exists>a b. pattern = a @ url @ b)))"
proof (intro conjI impI)
  show "regExpTest (patternRegex pattern) url \<noteq> None"
    by (simp add: regExpTest_patternRegex)
  show "(\<exists>e. tryBlock origin url pattern = Inl e) \<longleftrightarrow> origin url = None \<or> origin pattern = None"
    by (auto simp: tryBlock_def regExpTest_patternRegex split: option.splits)
  show "tryBlock origin url pattern \<noteq> Inl SyntaxError"
    by (auto simp: tryBlock_def regExpTest_patternRegex split: option.splits)
next
  assume "origin url = None \<or> origin pattern = None"
  then have "tryBlock origin url pattern = Inl TypeError"
    by (rule tryBlock_unparsed)
  then show "urlMatchesPattern origin url pattern =
        (url = pattern \<or> (\<exists>a b. url = a @ pattern @ b) \<or> (\<exists>a b. pattern = a @ url @ b))"
    by (simp add: urlMatchesPattern_def fallbackMatch_def includes_str_iff)
qed

theorem urlMatchesPattern_total_witness:
  "urlMatchesPattern (\<lambda>s. None) ''example.com/page'' ''example.com'' \<and>
   urlMatchesPattern (\<lambda>s. None) ''example'' ''www.example.com'' \<and>
   \<not> urlMatchesPattern (\<lambda>s. None) ''example.com'' ''other.org''"
proof -
  have "\<exists>a b. ''example.com/page'' = a @ ''example.com'' @ b"
    by (intro exI [of _ "[]"] exI [of _ "''/page''"]) simp
  with urlMatchesPattern_total [of "''example.com''" "''example.com/page''" "\<lambda>s. None"]
  have 1: "urlMatchesPattern (\<lambda>s. None) ''example.com/page'' ''example.com''"
    by simp
  have "\<exists>a b. ''www.example.com'' = a @ ''example'' @ b"
    by (intro exI [of _ "''www.''"] exI [of _ "''.com''"]) simp
  with urlMatchesPattern_total [of "''www.example.com''" "''example''" "\<lambda>s. None"]
  have 2: "urlMatchesPattern (\<lambda>s. None) ''example'' ''www.example.com''"
    by simp
  have "\<not> sublist ''other.org'' ''example.com''" "\<not> sublist ''example.com'' ''other.org''"
    by code_simp+
  then have "\<not> (\<exists>a b. ''example.com'' = a @ ''other.org'' @ b)"
    "\<not> (\<exists>a b. ''other.org'' = a @ ''example.com'' @ b)"
    by (simp_all add: sublist_def)
  with urlMatchesPattern_total [of "''other.org''" "''example.com''" "\<lambda>s. None"]
  have 3: "\<not> urlMatchesPattern (\<lambda>s. None) ''example.com'' ''other.org''"
    by simp
  from 1 2 3 show ?thesis by (intro conjI)
qed




text \<open>
  Claim C3: the code at the example of the claim. The first \<open>replace\<close> escapes the
  \<open>*\<close> together with the other special characters, so the second one turns \<open>\*\<close>
  into \<open>\.*\<close>: in the expression that is built, every \<open>*\<close> of the pattern stands for
  a run of full stops, not for any substring. Unless the browser gives both strings the
  same origin, the url \<open>https://sub.example.com/anything\<close> therefore does not match
  the pattern \<open>https://*.example.com/*\<close>, which it matches when \<open>*\<close> stands for any
  substring.
\<close>

theorem wildcard_pattern_mismatch:
  "(origin url = Some o1 \<and> origin pattern = Some o2 \<and> o1 \<noteq> o2 \<longrightarrow>
      urlMatchesPattern origin url pattern =
        matchPieces (map (\<lambda>c. if c = CHR ''*'' then Repeat (CHR ''.'') else Single c) pattern) url) \<and>
   (\<not> (\<exists>og. origin ''https://sub.example.com/anything'' = Some og \<and>
             origin ''https://*.example.com/*'' = Some og) \<longrightarrow>
      \<not> urlMatchesPattern origin ''https://sub.example.com/anything'' ''https://*.example.com/*'') \<and>
   spec_wildcardMatch ''https://*.example.com/*'' ''https://sub.example.com/anything''"
proof (intro conjI impI)
  assume a: "origin url = Some o1 \<and> origin pattern = Some o2 \<and> o1 \<noteq> o2"
  then have "url \<noteq> pattern" by auto
  with a show "urlMatchesPattern origin url pattern =
        matchPieces (map (\<lambda>c. if c = CHR ''*'' then Repeat (CHR ''.'') else Single c) pattern) url"
    by (simp add: urlMatchesPattern_def tryBlock_parsed)
next
  let ?u = "''https://sub.example.com/anything''" and ?p = "''https://*.example.com/*''"
  assume n: "\<not> (\<exists>og. origin ?u = Some og \<and> origin ?p = Some og)"
  have fb: "\<not> fallbackMatch ?u ?p"
    by code_simp
  have re: "\<not> matchPieces (map (\<lambda>c. if c = CHR ''*'' then Repeat (CHR ''.'') else Single c) ?p) ?u"
    by code_simp
  show "\<not> urlMatchesPattern origin ?u ?p"
  proof (cases "origin ?u = None \<or> origin ?p = None")
    case True
    then have "tryBlock origin ?u ?p = Inl TypeError" by (rule tryBlock_unparsed)
    with fb show ?thesis by (simp add: urlMatchesPattern_def)
  next
    case False
    then obtain a b where ab: "origin ?u = Some a" "origin ?p = Some b" by auto
    with n have "a \<noteq> b" by auto
    with re tryBlock_parsed [of origin ?u a ?p b, OF ab] show ?thesis
      by (simp add: urlMatchesPattern_def)
  qed
next
  show "spec_wildcardMatch ''https://*.example.com/*'' ''https://sub.example.com/anything''"
    by code_simp
qed

theorem wildcard_pattern_mismatch_witness:
  "\<not> urlMatchesPattern
       (\<lambda>s. if s = ''https://sub.example.com/anything'' then Some ''https://sub.example.com''
            else if s = ''https://*.example.com/*'' then Some ''https://*.example.com''
            else None)
       ''https://sub.example.com/anything'' ''https://*.example.com/*''"
proof -
  let ?origin = "\<lambda>s. if s = ''https://sub.example.com/anything'' then Some ''https://sub.example.com''
            else if s = ''https://*.example.com/*'' then Some ''https://*.example.com''
            else None"
  have "\<not> (\<exists>og. ?origin ''https://sub.example.com/anything'' = Some og \<and>
             ?origin ''https://*.example.com/*'' = Some og)"
    by simp
  with wildcard_pattern_mismatch [where origin = "?origin"]
  show ?thesis by blast
qed

section \<open>Properties of the step loop\<close>

lemma remainderIsZero_dvd: "remainderIsZero n k \<longleftrightarrow> k \<noteq> 0 \<and> k dvd n"
  by (auto simp: remainderIsZero_def)

lemma remainderIsZero_Suc: "remainderIsZero (Suc n) k \<longleftrightarrow> k dvd Suc n"
  by (cases "k = 0") (simp_all add: remainderIsZero_dvd)

lemma planningPass_NotRun_iff:
  "planningPass ex jsOnly st = NotRun \<longleftrightarrow>
     \<not> shouldRunPlanner (planner ex \<noteq> None) jsOnly (nSteps st) (planningInterval ex)
          (navigatorDone st)"
  by (auto simp: planningPass_def shouldRunPlanner_def split: option.splits)

lemma executionPass_trace: "fst (executionPass ex st) = [ExecutionPass (nSteps st)]"
  by (simp add: executionPass_def)

lemma iteration_trace:
  "fst (iteration ex jsOnly st) =
     (if shouldRunPlanner (planner ex \<noteq> None) jsOnly (nSteps st + 1) (planningInterval ex)
           (navigatorDone st)
      then PlanningPass (nSteps st + 1) #
           (case planningPass ex jsOnly (st\<lparr>nSteps := nSteps st + 1\<rparr>) of
              Planned out \<Rightarrow>
                if checkTaskCompletion ex out then [] else [ExecutionPass (nSteps st + 1)]
            | _ \<Rightarrow> [])
      else [ExecutionPass (nSteps st + 1)])"
  using planningPass_NotRun_iff [of ex jsOnly "st\<lparr>nSteps := nSteps st + 1\<rparr>"]
  by (auto simp: iteration_def Let_def executionPass_def split: planning.splits prod.splits)

lemma iteration_planning_iff:
  "list_ex isPlanningPass (fst (iteration ex jsOnly st)) \<longleftrightarrow>
     shouldRunPlanner (planner ex \<noteq> None) jsOnly (nSteps st + 1) (planningInterval ex)
       (navigatorDone st)"
  by (simp add: iteration_trace)

lemma stepLoop_planning:
  "list_ex isPlanningPass (fst (stepLoop ex jsOnly st)) \<Longrightarrow> planner ex \<noteq> None \<and> \<not> jsOnly"
proof (induction ex jsOnly st rule: stepLoop.induct)
  case (1 ex jsOnly st)
  show ?case
  proof (cases "maxSteps ex \<le> nSteps st")
    case True
    with "1.prems" show ?thesis by (simp add: stepLoop.simps [of ex jsOnly st])
  next
    case False
    obtain ps r where it: "iteration ex jsOnly st = (ps, r)" by (cases "iteration ex jsOnly st")
    show ?thesis
    proof (cases "list_ex isPlanningPass ps")
      case True
      with it iteration_planning_iff [of ex jsOnly st] show ?thesis
        by (simp add: shouldRunPlanner_def)
    next
      case noplan: False
      show ?thesis
      proof (cases r)
        case (Inl t)
        with "1.prems" False it noplan show ?thesis
          by (simp add: stepLoop.simps [of ex jsOnly st])
      next
        case (Inr st')
        with "1.prems" False it noplan
        have "list_ex isPlanningPass (fst (stepLoop ex jsOnly st'))"
          by (simp add: stepLoop.simps [of ex jsOnly st] split: prod.splits)
        with "1.IH" [OF False it [symmetric] Inr] show ?thesis .
      qed
    qed
  qed
qed


lemma jsOnly_fixed:
  "jsOnlyForThisTask isClientSideJsTask gs ts \<longleftrightarrow>
     (\<exists>g. gs = Some g \<and> fastJsMode g \<and> allowCodeGeneration g) \<and>
     isClientSideJsTask (currentTask ts)"
  by (auto simp: jsOnlyForThisTask_def fastJsModeEnabled_def split: option.splits)

text \<open>
  Claim C1. Whatever the state of the loop, the iteration run from it invokes the
  planning pass if and only if a planner is configured, the task is not JS-only, and the
  step counter of the iteration is a multiple of the planning interval or the flag left
  by the previous execution pass is set (the counter is at least \<open>1\<close> there, so an
  interval of \<open>0\<close>, whose remainder is never \<open>0\<close>, has no multiple to offer
  either way). The JS-only flag is computed once, before the loop, from the two settings and
  the classifier on the current task, and the loop hands it on unchanged. So a run in
  which a planning pass occurs has a planner and is not JS-only; a run for a JS task with
  both settings on has no planning pass at all; and with code generation off the run is
  the run of the loop with the flag off, the same as with fast JS mode off.
\<close>

theorem planning_guard:
  "(list_ex isPlanningPass (fst (iteration ex jsOnly st)) \<longleftrightarrow>
      planner ex \<noteq> None \<and> \<not> jsOnly \<and>
      (planningInterval ex dvd nSteps st + 1 \<or> navigatorDone st)) \<and>
   execute ex isClientSideJsTask =
     stepLoop ex
       ((\<exists>g. generalSettings ex = Some g \<and> fastJsMode g \<and> allowCodeGeneration g) \<and>
        isClientSideJsTask (currentTask (tasks ex)))
       \<lparr>nSteps = 0, navigatorDone = False, latestPlanOutput = None\<rparr> \<and>
   (list_ex isPlanningPass (fst (stepLoop ex jsOnly st)) \<longrightarrow> planner ex \<noteq> None \<and> \<not> jsOnly) \<and>
   (generalSettings ex = Some g \<and> fastJsMode g \<and> allowCodeGeneration g \<and>
    isClientSideJsTask (currentTask (tasks ex)) \<longrightarrow>
      \<not> list_ex isPlanningPass (fst (execute ex isClientSideJsTask))) \<and>
   (generalSettings ex = Some g \<and> \<not> allowCodeGeneration g \<longrightarrow>
      execute ex isClientSideJsTask =
        stepLoop ex False \<lparr>nSteps = 0, navigatorDone = False, latestPlanOutput = None\<rparr> \<and>
      execute ex isClientSideJsTask =
        execute (ex\<lparr>generalSettings := Some (g\<lparr>fastJsMode := False\<rparr>)\<rparr>) isClientSideJsTask)"
proof (intro conjI impI)
  show "list_ex isPlanningPass (fst (iteration ex jsOnly st)) \<longleftrightarrow>
      planner ex \<noteq> None \<and> \<not> jsOnly \<and>
      (planningInterval ex dvd nSteps st + 1 \<or> navigatorDone st)"
    by (simp add: iteration_planning_iff shouldRunPlanner_def remainderIsZero_Suc)
  show "execute ex isClientSideJsTask =
     stepLoop ex
       ((\<exists>g. generalSettings ex = Some g \<and> fastJsMode g \<and> allowCodeGeneration g) \<and>
        isClientSideJsTask (currentTask (tasks ex)))
       \<lparr>nSteps = 0, navigatorDone = False, latestPlanOutput = None\<rparr>"
    by (simp add: execute_def jsOnly_fixed)
next
  assume "list_ex isPlanningPass (fst (stepLoop ex jsOnly st))"
  then have "planner ex \<noteq> None \<and> \<not> jsOnly" by (rule stepLoop_planning)
  then show "planner ex \<noteq> None" and "\<not> jsOnly" by simp_all
next
  assume a: "generalSettings ex = Some g \<and> fastJsMode g \<and> allowCodeGeneration g \<and>
    isClientSideJsTask (currentTask (tasks ex))"
  then have js: "jsOnlyForThisTask isClientSideJsTask (generalSettings ex) (tasks ex)"
    by (simp add: jsOnly_fixed)
  show "\<not> list_ex isPlanningPass (fst (execute ex isClientSideJsTask))"
  proof
    assume "list_ex isPlanningPass (fst (execute ex isClientSideJsTask))"
    then have "\<not> jsOnlyForThisTask isClientSideJsTask (generalSettings ex) (tasks ex)"
      unfolding execute_def by (rule stepLoop_planning [THEN conjunct2])
    with js show False by contradiction
  qed
next
  assume a: "generalSettings ex = Some g \<and> \<not> allowCodeGeneration g"
  then have off: "\<not> jsOnlyForThisTask isClientSideJsTask (generalSettings ex) (tasks ex)"
    by (simp add: jsOnly_fixed)
  then show "execute ex isClientSideJsTask =
        stepLoop ex False \<lparr>nSteps = 0, navigatorDone = False, latestPlanOutput = None\<rparr>"
    by (simp add: execute_def)
  have same: "stepLoop (ex\<lparr>generalSettings := gs\<rparr>) b s = stepLoop ex b s" for gs b s
  proof (induction ex b s rule: stepLoop.induct)
    case (1 ex b s)
    have it: "iteration (ex\<lparr>generalSettings := gs\<rparr>) b s = iteration ex b s"
      by (simp add: iteration_def planningPass_def executionPass_def Let_def
          cong: if_cong planning.case_cong option.case_cong)
    show ?case
    proof (cases "maxSteps ex \<le> nSteps s")
      case True
      then show ?thesis
        by (simp add: stepLoop.simps [of ex b s] stepLoop.simps [of "ex\<lparr>generalSettings := gs\<rparr>" b s])
    next
      case False
      obtain ps r where pr: "iteration ex b s = (ps, r)" by (cases "iteration ex b s")
      show ?thesis
      proof (cases r)
        case (Inl t)
        with False pr it show ?thesis
          by (simp add: stepLoop.simps [of ex b s] stepLoop.simps [of "ex\<lparr>generalSettings := gs\<rparr>" b s])
      next
        case (Inr s')
        with "1.IH" [OF False pr [symmetric] Inr] False pr it show ?thesis
          by (simp add: stepLoop.simps [of ex b s] stepLoop.simps [of "ex\<lparr>generalSettings := gs\<rparr>" b s])
      qed
    qed
  qed
  from a off show "execute ex isClientSideJsTask =
        execute (ex\<lparr>generalSettings := Some (g\<lparr>fastJsMode := False\<rparr>)\<rparr>) isClientSideJsTask"
    by (simp add: execute_def same jsOnly_fixed)
qed


theorem planning_guard_witness:
  "\<not> list_ex isPlanningPass (fst (execute
       \<lparr>planner = Some (\<lambda>n. Some n), checkTaskCompletion = (\<lambda>p::nat. False),
        navigate = (\<lambda>n. Some (3 \<le> n)), shouldStop = (\<lambda>n. False),
        maxSteps = 5, planningInterval = 2,
        tasks = [''use JS to set document background to blue''],
        generalSettings = Some \<lparr>allowCodeGeneration = True, fastJsMode = True\<rparr>\<rparr>
       (\<lambda>t. True))) \<and>
   execute
       \<lparr>planner = Some (\<lambda>n. Some n), checkTaskCompletion = (\<lambda>p::nat. False),
        navigate = (\<lambda>n. Some (3 \<le> n)), shouldStop = (\<lambda>n. False),
        maxSteps = 5, planningInterval = 2,
        tasks = [''use JS to set document background to blue''],
        generalSettings = Some \<lparr>allowCodeGeneration = True, fastJsMode = True\<rparr>\<rparr>
       (\<lambda>t. True)
     = ([ExecutionPass 1, ExecutionPass 2, ExecutionPass 3], Completed) \<and>
   execute
       \<lparr>planner = Some (\<lambda>n. Some n), checkTaskCompletion = (\<lambda>p::nat. False),
        navigate = (\<lambda>n. Some (3 \<le> n)), shouldStop = (\<lambda>n. False),
        maxSteps = 5, planningInterval = 2,
        tasks = [''use JS to set document background to blue''],
        generalSettings = Some \<lparr>allowCodeGeneration = False, fastJsMode = True\<rparr>\<rparr>
       (\<lambda>t. True)
     = ([ExecutionPass 1, PlanningPass 2, ExecutionPass 2, ExecutionPass 3], Completed)"
proof -
  let ?ex = "\<lambda>g. \<lparr>planner = Some (\<lambda>n. Some n), checkTaskCompletion = (\<lambda>p::nat. False),
        navigate = (\<lambda>n. Some (3 \<le> n)), shouldStop = (\<lambda>n. False),
        maxSteps = 5, planningInterval = 2,
        tasks = [''use JS to set document background to blue''],
        generalSettings = Some g\<rparr>"
  let ?on = "\<lparr>allowCodeGeneration = True, fastJsMode = True\<rparr>"
  let ?off = "\<lparr>allowCodeGeneration = False, fastJsMode = True\<rparr>"
  have hyp: "generalSettings (?ex ?on) = Some ?on \<and> fastJsMode ?on \<and> allowCodeGeneration ?on \<and>
      (\<lambda>t. True) (currentTask (tasks (?ex ?on)))"
    by simp
  from planning_guard [where ex = "?ex ?on" and g = ?on and isClientSideJsTask = "\<lambda>t. True"] hyp
  have a: "\<not> list_ex isPlanningPass (fst (execute (?ex ?on) (\<lambda>t. True)))"
    by blast
  have b: "execute (?ex ?on) (\<lambda>t. True)
      = ([ExecutionPass 1, ExecutionPass 2, ExecutionPass 3], Completed)"
    by (simp add: execute_def jsOnlyForThisTask_def fastJsModeEnabled_def stepLoop.simps
        iteration_def planningPass_def shouldRunPlanner_def executionPass_def)
  have c: "execute (?ex ?off) (\<lambda>t. True)
      = ([ExecutionPass 1, PlanningPass 2, ExecutionPass 2, ExecutionPass 3], Completed)"
    by (simp add: execute_def jsOnlyForThisTask_def fastJsModeEnabled_def stepLoop.simps
        iteration_def planningPass_def shouldRunPlanner_def executionPass_def
        remainderIsZero_def)
  from a b c show ?thesis by (intro conjI)
qed

section \<open>Properties of the navigator prompt\<close>






end
